theory Spec2Isabelle
  imports Complex_Main
begin

section \<open>Data model of the overlay editor\<close>

text \<open>
  The editor component (\<^verbatim>\<open>PdfEditor\<close>, multi-page variant) keeps its data in React
  state cells. JavaScript numbers are modelled by \<^typ>\<open>real\<close>: rounding of IEEE
  doubles, infinities and NaN are outside the model, and every place where the source
  can produce NaN from finite input (\<^verbatim>\<open>parseInt\<close> on a string without digits) is an
  explicit \<open>None\<close>. Strings are lists of 8-bit code units.
\<close>

record OverlayItem =
  o_id :: string
  o_text :: string
  o_x :: real
  o_y :: real
  o_fontSize :: real
  o_color :: string

text \<open>\<^verbatim>\<open>Partial<OverlayItem>\<close>: every field may be absent.\<close>

record OverlayPartial =
  p_id :: "string option"
  p_text :: "string option"
  p_x :: "real option"
  p_y :: "real option"
  p_fontSize :: "real option"
  p_color :: "string option"

record PageSize =
  width :: real
  height :: real

text \<open>\<^verbatim>\<open>type PageOverlays = Record<number, OverlayItem[]>\<close>\<close>

type_synonym PageOverlays = "nat \<rightharpoonup> OverlayItem list"

definition no_fields :: OverlayPartial where
  "no_fields = \<lparr>p_id = None, p_text = None, p_x = None, p_y = None,
                 p_fontSize = None, p_color = None\<rparr>"

text \<open>The object spread \<^verbatim>\<open>{ ...o, ...partial }\<close>: a field of the partial wins.\<close>

definition merge_item :: "OverlayItem \<Rightarrow> OverlayPartial \<Rightarrow> OverlayItem" where
  "merge_item it p =
     \<lparr>o_id = (case p_id p of Some v \<Rightarrow> v | None \<Rightarrow> o_id it),
      o_text = (case p_text p of Some v \<Rightarrow> v | None \<Rightarrow> o_text it),
      o_x = (case p_x p of Some v \<Rightarrow> v | None \<Rightarrow> o_x it),
      o_y = (case p_y p of Some v \<Rightarrow> v | None \<Rightarrow> o_y it),
      o_fontSize = (case p_fontSize p of Some v \<Rightarrow> v | None \<Rightarrow> o_fontSize it),
      o_color = (case p_color p of Some v \<Rightarrow> v | None \<Rightarrow> o_color it)\<rparr>"

text \<open>\<^verbatim>\<open>prev[pageIndex] || []\<close>: an array is always truthy, so only a missing key
  gives the empty sequence.\<close>

definition page_seq :: "PageOverlays \<Rightarrow> nat \<Rightarrow> OverlayItem list" where
  "page_seq ov pageIndex = (case ov pageIndex of Some xs \<Rightarrow> xs | None \<Rightarrow> [])"

text \<open>\<^verbatim>\<open>pageSizes[pageIndex]\<close>: \<^verbatim>\<open>undefined\<close> beyond the end of the array.\<close>

definition size_at :: "PageSize list \<Rightarrow> nat \<Rightarrow> PageSize option" where
  "size_at pageSizes pageIndex =
     (if pageIndex < length pageSizes then Some (pageSizes ! pageIndex) else None)"

text \<open>\<^verbatim>\<open>Math.round\<close> rounds to the nearest integer, halves towards \<open>+\<infinity>\<close>.\<close>

definition Math_round :: "real \<Rightarrow> real" where
  "Math_round v = of_int \<lfloor>v + 1 / 2\<rfloor>"

section \<open>Overlay store\<close>

text \<open>\<^verbatim>\<open>addTextOverlay\<close>; \<open>uuid\<close> is the value \<^verbatim>\<open>crypto.randomUUID()\<close> returned.\<close>

definition newOverlay :: "PageSize list \<Rightarrow> nat \<Rightarrow> string \<Rightarrow> OverlayItem" where
  "newOverlay pageSizes pageIndex uuid =
     \<lparr>o_id = uuid,
      o_text = ''New Text'',
      o_x = 0.5,
      o_y = 0.5,
      o_fontSize = max 12 (min 24 (case size_at pageSizes pageIndex of
                                     Some sz \<Rightarrow> Math_round (width sz * 0.02)
                                   | None \<Rightarrow> 16)),
      o_color = ''#111827''\<rparr>"

definition addTextOverlay ::
  "PageSize list \<Rightarrow> nat \<Rightarrow> string \<Rightarrow> PageOverlays \<Rightarrow> PageOverlays" where
  "addTextOverlay pageSizes pageIndex uuid prev =
     prev(pageIndex \<mapsto> page_seq prev pageIndex @ [newOverlay pageSizes pageIndex uuid])"

definition updateOverlay ::
  "nat \<Rightarrow> string \<Rightarrow> OverlayPartial \<Rightarrow> PageOverlays \<Rightarrow> PageOverlays" where
  "updateOverlay pageIndex ident partial prev =
     prev(pageIndex \<mapsto>
       map (\<lambda>it. if o_id it = ident then merge_item it partial else it)
         (page_seq prev pageIndex))"

definition removeOverlay :: "nat \<Rightarrow> string \<Rightarrow> PageOverlays \<Rightarrow> PageOverlays" where
  "removeOverlay pageIndex ident prev =
     prev(pageIndex \<mapsto> filter (\<lambda>it. o_id it \<noteq> ident) (page_seq prev pageIndex))"

section \<open>Coordinate conversions of the page view\<close>

text \<open>The size a page is laid out with: \<^verbatim>\<open>pageSizes[pageIndex] || { width: 595, height: 842 }\<close>.\<close>

definition layout_size :: "PageSize list \<Rightarrow> nat \<Rightarrow> PageSize" where
  "layout_size pageSizes pageIndex =
     (case size_at pageSizes pageIndex of Some sz \<Rightarrow> sz
      | None \<Rightarrow> \<lparr>width = 595, height = 842\<rparr>)"

text \<open>\<^verbatim>\<open>defaultPosition={{ x: left, y: top }}\<close> with \<^verbatim>\<open>left = o.x * size.width\<close>,
  \<^verbatim>\<open>top = o.y * size.height\<close>.\<close>

definition defaultPosition :: "PageSize \<Rightarrow> OverlayItem \<Rightarrow> real \<times> real" where
  "defaultPosition sz it = (o_x it * width sz, o_y it * height sz)"

text \<open>The drag-stop conversion \<^verbatim>\<open>Math.min(1, Math.max(0, data.x / size.width))\<close>. For a
  zero extent the source divides by zero (an infinity or NaN); the model is meant for
  positive extents only.\<close>

definition drag_norm :: "real \<Rightarrow> real \<Rightarrow> real" where
  "drag_norm px extent = min 1 (max 0 (px / extent))"

definition onStop ::
  "PageSize \<Rightarrow> nat \<Rightarrow> string \<Rightarrow> real \<times> real \<Rightarrow> PageOverlays \<Rightarrow> PageOverlays" where
  "onStop sz pageIndex ident pos prev =
     (let newX = drag_norm (fst pos) (width sz);
          newY = drag_norm (snd pos) (height sz)
      in updateOverlay pageIndex ident (no_fields\<lparr>p_x := Some newX, p_y := Some newY\<rparr>) prev)"

section \<open>Decimal strings and \<^verbatim>\<open>parseInt\<close>\<close>

definition is_digit :: "char \<Rightarrow> bool" where
  "is_digit c = (c \<in> set ''0123456789'')"

text \<open>White space and line terminators of ECMAScript among the 8-bit code units: TAB, LF,
  VT, FF, CR, SP and NBSP. \<^verbatim>\<open>parseInt\<close> skips them and \<^verbatim>\<open>\s\<close> matches them.\<close>

definition is_space :: "char \<Rightarrow> bool" where
  "is_space c = ((of_char c :: nat) \<in> set [9, 10, 11, 12, 13, 32, 160])"

definition digit_val :: "char \<Rightarrow> nat" where
  "digit_val c = of_char c - 48"

definition digits_value :: "string \<Rightarrow> nat" where
  "digits_value ds = foldl (\<lambda>acc c. 10 * acc + digit_val c) 0 ds"

text \<open>\<^verbatim>\<open>parseInt(s, 10)\<close>: leading white space is skipped, one sign is read, then the
  longest run of decimal digits; without a digit the result is NaN, here \<open>None\<close>.\<close>

definition parseInt10 :: "string \<Rightarrow> int option" where
  "parseInt10 s =
     (let t = dropWhile is_space s;
          neg = (case t of c # _ \<Rightarrow> c = CHR ''-'' | [] \<Rightarrow> False);
          u = (case t of c # r \<Rightarrow> if c = CHR ''-'' \<or> c = CHR ''+'' then r else t | [] \<Rightarrow> t);
          z = takeWhile is_digit u
      in if z = [] then None
         else Some (if neg then - int (digits_value z) else int (digits_value z)))"

text \<open>The decimal numeral of a natural number, as \<^verbatim>\<open>String(n)\<close> writes an integer.\<close>

fun decimal :: "nat \<Rightarrow> string" where
  "decimal n =
     (if n < 10 then [''0123456789'' ! n]
      else decimal (n div 10) @ [''0123456789'' ! (n mod 10)])"

declare decimal.simps [simp del]

section \<open>Field editors of an overlay\<close>

text \<open>The font-size editor is \<^verbatim>\<open><input type="range" min={8} max={72} step={1}>\<close>. The
  value such a control reports is the offered number brought into \<open>min..max\<close> and rounded
  to the step (halves upwards); an offer that is not a number gives the default, the
  middle of the range. The control reports it as a decimal string.\<close>

definition range_min :: int where "range_min = 8"
definition range_max :: int where "range_max = 72"

definition range_input_value :: "real option \<Rightarrow> string" where
  "range_input_value offered =
     decimal (nat (case offered of
                     None \<Rightarrow> range_min + (range_max - range_min) div 2
                   | Some v \<Rightarrow>
                       if v < of_int range_min then range_min
                       else if of_int range_max < v then range_max
                       else \<lfloor>v + 1 / 2\<rfloor>))"

text \<open>\<^verbatim>\<open>onChange={e => updateOverlay(pageIndex, o.id, { fontSize: parseInt(e.target.value, 10) })}\<close>;
  \<open>None\<close> stands for a NaN font size, which the number model cannot store.\<close>

definition onFontSizeChange ::
  "nat \<Rightarrow> string \<Rightarrow> string \<Rightarrow> PageOverlays \<Rightarrow> PageOverlays option" where
  "onFontSizeChange pageIndex ident v prev =
     (case parseInt10 v of
        None \<Rightarrow> None
      | Some n \<Rightarrow>
          Some (updateOverlay pageIndex ident (no_fields\<lparr>p_fontSize := Some (of_int n)\<rparr>) prev))"

definition onTextChange :: "nat \<Rightarrow> string \<Rightarrow> string \<Rightarrow> PageOverlays \<Rightarrow> PageOverlays" where
  "onTextChange pageIndex ident v prev =
     updateOverlay pageIndex ident (no_fields\<lparr>p_text := Some v\<rparr>) prev"

definition onColorChange :: "nat \<Rightarrow> string \<Rightarrow> string \<Rightarrow> PageOverlays \<Rightarrow> PageOverlays" where
  "onColorChange pageIndex ident v prev =
     updateOverlay pageIndex ident (no_fields\<lparr>p_color := Some v\<rparr>) prev"

text \<open>The update operations the page view offers for one overlay: the end of a drag at a
  surface position, and the three field editors. \<open>EditFontSize\<close> carries the number
  offered to the range control.\<close>

datatype edit =
    DragStop real real
  | EditText string
  | EditColor string
  | EditFontSize "real option"

fun apply_edit ::
  "PageSize list \<Rightarrow> nat \<Rightarrow> string \<Rightarrow> edit \<Rightarrow> PageOverlays \<Rightarrow> PageOverlays option" where
  "apply_edit pageSizes pageIndex ident (DragStop px py) prev =
     Some (onStop (layout_size pageSizes pageIndex) pageIndex ident (px, py) prev)"
| "apply_edit pageSizes pageIndex ident (EditText v) prev =
     Some (onTextChange pageIndex ident v prev)"
| "apply_edit pageSizes pageIndex ident (EditColor v) prev =
     Some (onColorChange pageIndex ident v prev)"
| "apply_edit pageSizes pageIndex ident (EditFontSize offered) prev =
     onFontSizeChange pageIndex ident (range_input_value offered) prev"

text \<open>Everything a user can do to the overlay collection from the page view.\<close>

datatype action =
    AddText nat string
  | Edit nat string edit
  | Remove nat string

fun step :: "PageSize list \<Rightarrow> action \<Rightarrow> PageOverlays \<Rightarrow> PageOverlays option" where
  "step pageSizes (AddText pageIndex uuid) prev =
     Some (addTextOverlay pageSizes pageIndex uuid prev)"
| "step pageSizes (Edit pageIndex ident e) prev = apply_edit pageSizes pageIndex ident e prev"
| "step pageSizes (Remove pageIndex ident) prev = Some (removeOverlay pageIndex ident prev)"

fun run :: "PageSize list \<Rightarrow> action list \<Rightarrow> PageOverlays \<Rightarrow> PageOverlays option" where
  "run pageSizes [] ov = Some ov"
| "run pageSizes (a # as) ov =
     (case step pageSizes a ov of None \<Rightarrow> None | Some ov' \<Rightarrow> run pageSizes as ov')"

text \<open>The coordinates of every overlay of a page are normalized.\<close>

definition in01 :: "OverlayItem \<Rightarrow> bool" where
  "in01 it = (0 \<le> o_x it \<and> o_x it \<le> 1 \<and> 0 \<le> o_y it \<and> o_y it \<le> 1)"

definition page_in01 :: "PageOverlays \<Rightarrow> nat \<Rightarrow> bool" where
  "page_in01 ov pageIndex = list_all in01 (page_seq ov pageIndex)"

section \<open>Editor state and what the browser shows\<close>

type_synonym bytes = "nat list"

text \<open>pdf.js as far as the editor uses it: a page reports its viewport at scale 1 and
  its \<^verbatim>\<open>render\<close> promise resolves or rejects; \<^verbatim>\<open>doc.getPage(i)\<close> resolves to the
  page at index \<open>i - 1\<close> or rejects (\<open>None\<close>); \<^verbatim>\<open>doc.numPages\<close> is the length.\<close>

record PdfPage =
  vp_width :: real
  vp_height :: real
  render_ok :: bool

type_synonym RenderDoc = "PdfPage option list"

text \<open>The \<^verbatim>\<open>useState\<close> cells of the component.\<close>

record Editor =
  s_uploading :: bool
  s_pdfUrl :: "string option"
  s_pdfArrayBuffer :: "bytes option"
  s_exportArrayBuffer :: "bytes option"
  s_pdfDoc :: "RenderDoc option"
  s_numPages :: nat
  s_pageSizes :: "PageSize list"
  s_overlays :: PageOverlays
  s_rendering :: bool

definition initial_editor :: Editor where
  "initial_editor =
     \<lparr>s_uploading = False, s_pdfUrl = None, s_pdfArrayBuffer = None,
      s_exportArrayBuffer = None, s_pdfDoc = None, s_numPages = 0, s_pageSizes = [],
      s_overlays = Map.empty, s_rendering = False\<rparr>"

text \<open>What a handler lets the user see: \<^verbatim>\<open>alert\<close> messages, the number of
  \<^verbatim>\<open>console.error\<close> calls, and the files handed to the download (the \<^verbatim>\<open>download\<close>
  name of the clicked anchor and the bytes of its blob).\<close>

record Effects =
  alerts :: "string list"
  console_errors :: nat
  downloads :: "(string \<times> bytes) list"

definition quiet :: Effects where
  "quiet = \<lparr>alerts = [], console_errors = 0, downloads = []\<rparr>"

text \<open>A \<^verbatim>\<open>catch (e) { console.error(e); alert(msg) }\<close> block.\<close>

definition caught :: "string \<Rightarrow> Effects" where
  "caught msg = \<lparr>alerts = [msg], console_errors = 1, downloads = []\<rparr>"

section \<open>Loading from the \<^verbatim>\<open>?file=\<close> parameter\<close>

text \<open>The effect on \<^verbatim>\<open>searchParams\<close>. \<open>fetch_bytes url\<close> is
  \<^verbatim>\<open>fetch(url).then(r => r.arrayBuffer())\<close>, \<open>None\<close> when the promise rejects. An empty
  string is falsy.\<close>

definition loadFromParam ::
  "(string \<Rightarrow> bytes option) \<Rightarrow> string option \<Rightarrow> Editor \<Rightarrow> Editor \<times> Effects" where
  "loadFromParam fetch_bytes param st =
     (case param of
        None \<Rightarrow> (st, quiet)
      | Some paramUrl \<Rightarrow>
          if paramUrl = [] then (st, quiet)
          else if Some paramUrl = s_pdfUrl st then (st, quiet)
          else
            (let st1 = st\<lparr>s_pdfUrl := Some paramUrl\<rparr> in
             case fetch_bytes paramUrl of
               None \<Rightarrow> (st1, caught ''Failed to load PDF from URL'')
             | Some ab \<Rightarrow> (st1\<lparr>s_pdfArrayBuffer := Some ab\<rparr>, quiet)))"

section \<open>Restoring the saved overlays\<close>

text \<open>\<^verbatim>\<open>localStorage.getItem\<close> throws, returns \<^verbatim>\<open>null\<close> or returns a string.\<close>

datatype stored = ReadThrows | Absent | Stored string

text \<open>The platform the restore effect runs on: \<^verbatim>\<open>encodeURIComponent\<close> (throws on a
  malformed string), \<^verbatim>\<open>localStorage.getItem\<close>, and \<^verbatim>\<open>JSON.parse\<close> (throws on a
  syntax error; a value it returns is taken as a \<^verbatim>\<open>PageOverlays\<close>, as the cast does).\<close>

record Persistence =
  encodeURIComponent :: "string \<Rightarrow> string option"
  getItem :: "string \<Rightarrow> stored"
  JSON_parse :: "string \<Rightarrow> PageOverlays option"

definition getOverlaysStorageKey :: "Persistence \<Rightarrow> string \<Rightarrow> string option" where
  "getOverlaysStorageKey env url =
     (case encodeURIComponent env url of None \<Rightarrow> None | Some e \<Rightarrow> Some (''overlays:'' @ e))"

text \<open>The body of the \<^verbatim>\<open>try\<close> block: \<open>Inl ()\<close> when something throws, otherwise the
  collection that \<^verbatim>\<open>setOverlays\<close> receives.\<close>

definition read_saved :: "Persistence \<Rightarrow> string \<Rightarrow> unit + PageOverlays" where
  "read_saved env url =
     (case getOverlaysStorageKey env url of
        None \<Rightarrow> Inl ()
      | Some key \<Rightarrow>
          (case getItem env key of
             ReadThrows \<Rightarrow> Inl ()
           | Absent \<Rightarrow> Inr Map.empty
           | Stored raw \<Rightarrow>
               if raw = [] then Inr Map.empty
               else (case JSON_parse env raw of
                       None \<Rightarrow> Inl ()
                     | Some parsed \<Rightarrow> Inr parsed)))"

definition restoreOverlays :: "Persistence \<Rightarrow> Editor \<Rightarrow> Editor \<times> Effects" where
  "restoreOverlays env st =
     (case s_pdfUrl st of
        None \<Rightarrow> (st, quiet)
      | Some url \<Rightarrow>
          if url = [] then (st, quiet)
          else
            (case read_saved env url of
               Inr parsed \<Rightarrow> (st\<lparr>s_overlays := parsed\<rparr>, quiet)
             | Inl _ \<Rightarrow> (st\<lparr>s_overlays := Map.empty\<rparr>, quiet\<lparr>console_errors := 1\<rparr>)))"

section \<open>Rendering pipeline\<close>

text \<open>\<^verbatim>\<open>canvasRefs.current[i - 1]\<close>: no element, or a canvas whose
  \<^verbatim>\<open>getContext('2d')\<close> gives a context or \<^verbatim>\<open>null\<close>.\<close>

datatype canvas = Canvas bool

definition canvas_at :: "canvas option list \<Rightarrow> nat \<Rightarrow> canvas option" where
  "canvas_at refs k = (if k < length refs then refs ! k else None)"

text \<open>The cleanup of the effect sets \<^verbatim>\<open>cancelled\<close>; the flag is read after the document
  is open (check 0), after the sizes are known (check 1) and in \<^verbatim>\<open>finally\<close> (check 2).
  \<open>Some n\<close>: the flag is set from check \<open>n\<close> on.\<close>

definition cancelled :: "nat option \<Rightarrow> nat \<Rightarrow> bool" where
  "cancelled cancel k = (case cancel of None \<Rightarrow> False | Some n \<Rightarrow> n \<le> k)"

text \<open>First loop: the viewport of every page; the first rejected \<^verbatim>\<open>getPage\<close> throws.\<close>

fun page_sizes :: "RenderDoc \<Rightarrow> PageSize list option" where
  "page_sizes [] = Some []"
| "page_sizes (None # rest) = None"
| "page_sizes (Some pg # rest) =
     (case page_sizes rest of
        None \<Rightarrow> None
      | Some sizes \<Rightarrow> Some (\<lparr>width = vp_width pg, height = vp_height pg\<rparr> # sizes))"

text \<open>Second loop, from page number \<open>i\<close> on: the page numbers painted, and whether the
  loop ran to its end (\<open>False\<close>: a rejected promise threw out of it).\<close>

fun render_pages :: "canvas option list \<Rightarrow> nat \<Rightarrow> RenderDoc \<Rightarrow> nat list \<times> bool" where
  "render_pages refs i [] = ([], True)"
| "render_pages refs i (None # rest) = ([], False)"
| "render_pages refs i (Some pg # rest) =
     (case canvas_at refs (i - 1) of
        None \<Rightarrow> render_pages refs (Suc i) rest
      | Some (Canvas has_ctx) \<Rightarrow>
          if \<not> has_ctx then render_pages refs (Suc i) rest
          else if render_ok pg then
            (case render_pages refs (Suc i) rest of (painted, ok) \<Rightarrow> (i # painted, ok))
          else ([], False))"

record RenderRun =
  r_editor :: Editor
  r_painted :: "nat list"
  r_effects :: Effects

text \<open>\<^verbatim>\<open>finally { if (!cancelled) setRendering(false) }\<close>\<close>

definition finally_rendering :: "nat option \<Rightarrow> Editor \<Rightarrow> Editor" where
  "finally_rendering cancel st = (if cancelled cancel 2 then st else st\<lparr>s_rendering := False\<rparr>)"

definition loadAndRender ::
  "(bytes \<Rightarrow> RenderDoc option) \<Rightarrow> canvas option list \<Rightarrow> nat option \<Rightarrow> Editor \<Rightarrow> RenderRun" where
  "loadAndRender getDocument refs cancel st =
     (case s_pdfArrayBuffer st of
        None \<Rightarrow> \<lparr>r_editor = st, r_painted = [], r_effects = quiet\<rparr>
      | Some data \<Rightarrow>
          (let st1 = st\<lparr>s_rendering := True\<rparr>;
               failed = caught ''Failed to render PDF'' in
           case getDocument data of
             None \<Rightarrow>
               \<lparr>r_editor = finally_rendering cancel st1, r_painted = [], r_effects = failed\<rparr>
           | Some doc \<Rightarrow>
               if cancelled cancel 0 then
                 \<lparr>r_editor = finally_rendering cancel st1, r_painted = [], r_effects = quiet\<rparr>
               else
                 (let st2 = st1\<lparr>s_pdfDoc := Some doc, s_numPages := length doc\<rparr> in
                  case page_sizes doc of
                    None \<Rightarrow>
                      \<lparr>r_editor = finally_rendering cancel st2, r_painted = [],
                       r_effects = failed\<rparr>
                  | Some sizes \<Rightarrow>
                      if cancelled cancel 1 then
                        \<lparr>r_editor = finally_rendering cancel st2, r_painted = [],
                         r_effects = quiet\<rparr>
                      else
                        (let st3 = st2\<lparr>s_pageSizes := sizes\<rparr> in
                         case render_pages refs 1 doc of
                           (painted, ok) \<Rightarrow>
                             \<lparr>r_editor = finally_rendering cancel st3, r_painted = painted,
                              r_effects = (if ok then quiet else failed)\<rparr>))))"

section \<open>Colour resolution for the export\<close>

text \<open>The regular expression \<^verbatim>\<open>/rgba?\((\d+),\s*(\d+),\s*(\d+)/\<close>. Every quantifier in it is
  followed by a character it cannot match itself, so the greedy choice is the only one
  and no backtracking is needed inside one attempt.\<close>

fun after_prefix :: "string \<Rightarrow> string \<Rightarrow> string option" where
  "after_prefix [] s = Some s"
| "after_prefix (p # ps) [] = None"
| "after_prefix (p # ps) (c # cs) = (if p = c then after_prefix ps cs else None)"

text \<open>\<^verbatim>\<open>(\d+)\<close>: the captured digits and the rest of the input.\<close>

definition digits1 :: "string \<Rightarrow> (string \<times> string) option" where
  "digits1 s =
     (let ds = takeWhile is_digit s
      in if ds = [] then None else Some (ds, dropWhile is_digit s))"

text \<open>One attempt to match at the start of \<open>s\<close>; the three capture groups.\<close>

definition rgb_match_here :: "string \<Rightarrow> (string \<times> string \<times> string) option" where
  "rgb_match_here s =
     (case after_prefix ''rgb'' s of
        None \<Rightarrow> None
      | Some s1 \<Rightarrow>
          (case after_prefix ''(''
                  (case s1 of c # r \<Rightarrow> if c = CHR ''a'' then r else s1 | [] \<Rightarrow> s1) of
             None \<Rightarrow> None
           | Some s2 \<Rightarrow>
               (case digits1 s2 of
                  None \<Rightarrow> None
                | Some (m1, s3) \<Rightarrow>
                    (case after_prefix '','' s3 of
                       None \<Rightarrow> None
                     | Some s4 \<Rightarrow>
                         (case digits1 (dropWhile is_space s4) of
                            None \<Rightarrow> None
                          | Some (m2, s5) \<Rightarrow>
                              (case after_prefix '','' s5 of
                                 None \<Rightarrow> None
                               | Some s6 \<Rightarrow>
                                   (case digits1 (dropWhile is_space s6) of
                                      None \<Rightarrow> None
                                    | Some (m3, s7) \<Rightarrow> Some (m1, m2, m3))))))))"

text \<open>\<^verbatim>\<open>exec\<close>: the first position of the input where an attempt succeeds.\<close>

fun rgb_exec :: "string \<Rightarrow> (string \<times> string \<times> string) option" where
  "rgb_exec [] = None"
| "rgb_exec (c # cs) =
     (case rgb_match_here (c # cs) of Some m \<Rightarrow> Some m | None \<Rightarrow> rgb_exec cs)"

text \<open>The canvas the colour is resolved with: whether \<^verbatim>\<open>getContext('2d')\<close> gives a
  context, and the string read back from \<^verbatim>\<open>fillStyle\<close> after the colour was assigned
  to it.\<close>

record ColorCanvas =
  ctx_available :: bool
  computed_fillStyle :: "string \<Rightarrow> string"

text \<open>\<^verbatim>\<open>Math.min(255, Math.max(0, parseInt(m, 10)))\<close>. A long digit string makes
  \<^verbatim>\<open>parseInt\<close> round (or overflow to infinity), which the minimum with 255 hides: the
  exact integer gives the same result.\<close>

definition channel :: "string \<Rightarrow> real option" where
  "channel m =
     (case parseInt10 m of None \<Rightarrow> None | Some n \<Rightarrow> Some (min 255 (max 0 (of_int n))))"

text \<open>\<open>None\<close> stands for a triple with a NaN component.\<close>

definition cssColorToRgb01 :: "ColorCanvas \<Rightarrow> string \<Rightarrow> (real \<times> real \<times> real) option" where
  "cssColorToRgb01 cv color =
     (if \<not> ctx_available cv then Some (0, 0, 0)
      else
        (case rgb_exec (computed_fillStyle cv color) of
           None \<Rightarrow> Some (0, 0, 0)
         | Some (m1, m2, m3) \<Rightarrow>
             (case (channel m1, channel m2, channel m3) of
                (Some r, Some g, Some b) \<Rightarrow> Some (r / 255, g / 255, b / 255)
              | _ \<Rightarrow> None)))"

text \<open>\<^verbatim>\<open>rgb\<close> of pdf-lib asserts that each component lies between 0 and 1 and throws
  otherwise.\<close>

definition rgb :: "real \<times> real \<times> real \<Rightarrow> (real \<times> real \<times> real) option" where
  "rgb c =
     (case c of (r, g, b) \<Rightarrow>
        if 0 \<le> r \<and> r \<le> 1 \<and> 0 \<le> g \<and> g \<le> 1 \<and> 0 \<le> b \<and> b \<le> 1 then Some c else None)"

section \<open>Export\<close>

text \<open>One \<^verbatim>\<open>page.drawText(text, { x, y, size, font, color })\<close> call on page \<open>dc_page\<close>.\<close>

record DrawCall =
  dc_page :: nat
  dc_text :: string
  dc_x :: real
  dc_y :: real
  dc_size :: real
  dc_color :: "real \<times> real \<times> real"

text \<open>pdf-lib, as far as the export uses it. \<open>'d\<close> is the loaded document, \<open>'f\<close> the
  embedded font. A promise that rejects and a call that throws are \<open>None\<close> or \<open>False\<close>.
  The document is mutated by \<^verbatim>\<open>drawText\<close>; the model keeps the calls made so far in a
  list and hands it to \<open>w_drawText\<close> and \<open>w_save\<close>. Page count and page sizes are
  those of the loaded document.\<close>

record ('d, 'f) Writer =
  w_load :: "bytes \<Rightarrow> 'd option"
  w_embedFont :: "'d \<Rightarrow> 'f option"
  w_getPageCount :: "'d \<Rightarrow> nat"
  w_getWidth :: "'d \<Rightarrow> nat \<Rightarrow> real"
  w_getHeight :: "'d \<Rightarrow> nat \<Rightarrow> real"
  w_widthOfTextAtSize :: "'f \<Rightarrow> string \<Rightarrow> real \<Rightarrow> real option"
  w_drawText :: "'d \<Rightarrow> 'f \<Rightarrow> DrawCall list \<Rightarrow> DrawCall \<Rightarrow> bool"
  w_save :: "'d \<Rightarrow> DrawCall list \<Rightarrow> bytes option"

datatype export_step = Loading | Embedding | Measuring | Colouring | Drawing | Serializing

text \<open>The inner loop \<^verbatim>\<open>for (const o of pageOverlays)\<close>. \<open>made\<close> are the calls made so
  far; a step that throws ends the loop with the calls made until then.\<close>

fun draw_items ::
  "('d, 'f) Writer \<Rightarrow> ColorCanvas \<Rightarrow> 'd \<Rightarrow> 'f \<Rightarrow> nat \<Rightarrow> OverlayItem list \<Rightarrow> DrawCall list
     \<Rightarrow> export_step \<times> DrawCall list + DrawCall list" where
  "draw_items w cv d font i [] made = Inr made"
| "draw_items w cv d font i (it # rest) made =
     (case w_widthOfTextAtSize w font (o_text it) (o_fontSize it) of
        None \<Rightarrow> Inl (Measuring, made)
      | Some textWidth \<Rightarrow>
          (let pageWidth = w_getWidth w d i;
               pageHeight = w_getHeight w d i;
               xPdf = o_x it * pageWidth;
               yTop = o_y it * pageHeight;
               yPdf = pageHeight - yTop - o_fontSize it
           in case cssColorToRgb01 cv (o_color it) of
                None \<Rightarrow> Inl (Colouring, made)
              | Some c \<Rightarrow>
                  (case rgb c of
                     None \<Rightarrow> Inl (Colouring, made)
                   | Some col \<Rightarrow>
                       (let call = \<lparr>dc_page = i, dc_text = o_text it, dc_x = xPdf,
                                    dc_y = yPdf, dc_size = o_fontSize it, dc_color = col\<rparr>
                        in if w_drawText w d font made call
                           then draw_items w cv d font i rest (made @ [call])
                           else Inl (Drawing, made)))))"

text \<open>The outer loop over the page indices \<open>0 ..< getPageCount\<close>.\<close>

fun draw_pages ::
  "('d, 'f) Writer \<Rightarrow> ColorCanvas \<Rightarrow> 'd \<Rightarrow> 'f \<Rightarrow> PageOverlays \<Rightarrow> nat list \<Rightarrow> DrawCall list
     \<Rightarrow> export_step \<times> DrawCall list + DrawCall list" where
  "draw_pages w cv d font ov [] made = Inr made"
| "draw_pages w cv d font ov (i # rest) made =
     (case draw_items w cv d font i (page_seq ov i) made of
        Inl e \<Rightarrow> Inl e
      | Inr made' \<Rightarrow> draw_pages w cv d font ov rest made')"

text \<open>The body of the \<^verbatim>\<open>try\<close> block up to \<^verbatim>\<open>save\<close>: the step that threw and the calls
  made until then, or all calls and the serialized bytes.\<close>

definition export_body ::
  "('d, 'f) Writer \<Rightarrow> ColorCanvas \<Rightarrow> bytes \<Rightarrow> PageOverlays
     \<Rightarrow> export_step \<times> DrawCall list + DrawCall list \<times> bytes" where
  "export_body w cv buf ov =
     (case w_load w buf of
        None \<Rightarrow> Inl (Loading, [])
      | Some d \<Rightarrow>
          (case w_embedFont w d of
             None \<Rightarrow> Inl (Embedding, [])
           | Some font \<Rightarrow>
               (case draw_pages w cv d font ov [0 ..< w_getPageCount w d] [] of
                  Inl e \<Rightarrow> Inl e
                | Inr calls \<Rightarrow>
                    (case w_save w d calls of
                       None \<Rightarrow> Inl (Serializing, calls)
                     | Some out \<Rightarrow> Inr (calls, out)))))"

text \<open>\<^verbatim>\<open>handleExport\<close>: the \<^verbatim>\<open>drawText\<close> calls made, and what the user sees. After
  \<^verbatim>\<open>save\<close> the bytes go into a blob behind an anchor named \<^verbatim>\<open>annotated.pdf\<close>, which is
  clicked.\<close>

definition handleExport ::
  "('d, 'f) Writer \<Rightarrow> ColorCanvas \<Rightarrow> Editor \<Rightarrow> DrawCall list \<times> Effects" where
  "handleExport w cv st =
     (case s_exportArrayBuffer st of
        None \<Rightarrow> ([], quiet)
      | Some buf \<Rightarrow>
          (case export_body w cv buf (s_overlays st) of
             Inl (failed_step, calls) \<Rightarrow> (calls, caught ''Failed to export PDF'')
           | Inr (calls, out) \<Rightarrow> (calls, quiet\<lparr>downloads := [(''annotated.pdf'', out)]\<rparr>)))"

text \<open>The conversion from a normalized position (origin top left) and a font size to
  a PDF position (origin bottom left), as the specification writes it; the export loop
  above is compared with it.\<close>

definition toPdfPoint :: "real \<times> real \<Rightarrow> PageSize \<Rightarrow> real \<Rightarrow> real \<times> real" where
  "toPdfPoint npos sz fontSizePt =
     (fst npos * width sz, height sz - snd npos * height sz - fontSizePt)"

text \<open>What a \<^verbatim>\<open>drawText\<close> call places: page, text, position and size.\<close>

definition placed :: "DrawCall \<Rightarrow> nat \<times> string \<times> (real \<times> real) \<times> real" where
  "placed c = (dc_page c, dc_text c, (dc_x c, dc_y c), dc_size c)"

text \<open>What the conversion asks for: every overlay of every page of the loaded document,
  pages in index order and overlays in stored order, each at \<open>toPdfPoint\<close> of its
  normalized position for the size of its page.\<close>

definition plan_item ::
  "('d, 'f) Writer \<Rightarrow> 'd \<Rightarrow> nat \<Rightarrow> OverlayItem \<Rightarrow> nat \<times> string \<times> (real \<times> real) \<times> real" where
  "plan_item w d i it =
     (i, o_text it,
      toPdfPoint (o_x it, o_y it) \<lparr>width = w_getWidth w d i, height = w_getHeight w d i\<rparr>
        (o_fontSize it),
      o_fontSize it)"

definition planned ::
  "('d, 'f) Writer \<Rightarrow> 'd \<Rightarrow> PageOverlays \<Rightarrow> (nat \<times> string \<times> (real \<times> real) \<times> real) list" where
  "planned w d ov =
     concat (map (\<lambda>i. map (plan_item w d i) (page_seq ov i)) [0 ..< w_getPageCount w d])"

section \<open>Situations the theorems speak about\<close>

text \<open>Every page of the document opens, and the page at index \<open>k\<close> (page number
  \<open>k + 1\<close>) is the only one whose \<^verbatim>\<open>render\<close> promise rejects.\<close>

definition only_render_failure :: "RenderDoc \<Rightarrow> nat \<Rightarrow> bool" where
  "only_render_failure doc k =
     (k < length doc \<and>
      list_all (\<lambda>j. case doc ! j of None \<Rightarrow> False | Some pg \<Rightarrow> render_ok pg = (j \<noteq> k))
        [0 ..< length doc])"

text \<open>Each of the first \<open>n\<close> pages has its canvas, with a 2d context.\<close>

definition all_canvases_ready :: "canvas option list \<Rightarrow> nat \<Rightarrow> bool" where
  "all_canvases_ready refs n = list_all (\<lambda>j. canvas_at refs j = Some (Canvas True)) [0 ..< n]"

section \<open>Example data\<close>

definition sample_item :: OverlayItem where
  "sample_item = \<lparr>o_id = ''a'', o_text = ''New Text'', o_x = 0.5, o_y = 0.5,
                   o_fontSize = 16, o_color = ''#111827''\<rparr>"

definition sample_overlays :: PageOverlays where
  "sample_overlays = [0 \<mapsto> [sample_item]]"

definition a4 :: PageSize where
  "a4 = \<lparr>width = 595, height = 842\<rparr>"

definition sample_bytes :: bytes where
  "sample_bytes = [37, 80, 68, 70]"

text \<open>An editor after an upload: both byte buffers are filled, one overlay on page 0.\<close>

definition sample_editor :: Editor where
  "sample_editor =
     initial_editor\<lparr>s_pdfUrl := Some ''/fake.pdf'', s_pdfArrayBuffer := Some sample_bytes,
       s_exportArrayBuffer := Some sample_bytes, s_overlays := sample_overlays\<rparr>"

text \<open>A writer for a document of one A4 page on which every call succeeds.\<close>

definition one_page_writer :: "(unit, unit) Writer" where
  "one_page_writer =
     \<lparr>w_load = (\<lambda>b. Some ()), w_embedFont = (\<lambda>d. Some ()), w_getPageCount = (\<lambda>d. 1),
      w_getWidth = (\<lambda>d i. 595), w_getHeight = (\<lambda>d i. 842),
      w_widthOfTextAtSize = (\<lambda>f t sz. Some 0), w_drawText = (\<lambda>d f made call. True),
      w_save = (\<lambda>d calls. Some sample_bytes)\<rparr>"


text \<open>A canvas that reads an opaque colour back in its hexadecimal form and a
  translucent red as \<^verbatim>\<open>rgba(255, 0, 0, 0.5)\<close>.\<close>

definition sample_canvas :: ColorCanvas where
  "sample_canvas =
     \<lparr>ctx_available = True,
      computed_fillStyle = (\<lambda>c. if c = ''#ff000080'' then ''rgba(255, 0, 0, 0.5)'' else c)\<rparr>"

text \<open>A document of three pages whose second page does not render, and its canvases.\<close>

definition doc3 :: RenderDoc where
  "doc3 = [Some \<lparr>vp_width = 595, vp_height = 842, render_ok = True\<rparr>,
           Some \<lparr>vp_width = 595, vp_height = 842, render_ok = False\<rparr>,
           Some \<lparr>vp_width = 595, vp_height = 842, render_ok = True\<rparr>]"

definition canvases3 :: "canvas option list" where
  "canvases3 = [Some (Canvas True), Some (Canvas True), Some (Canvas True)]"

text \<open>pdf.js opening that document, and an editor that holds its bytes for rendering.\<close>

definition open_doc3 :: "bytes \<Rightarrow> RenderDoc option" where
  "open_doc3 data = Some doc3"

definition loaded_editor :: Editor where
  "loaded_editor = initial_editor\<lparr>s_pdfArrayBuffer := Some sample_bytes\<rparr>"

text \<open>A fetch that answers every URL with the sample bytes.\<close>

definition fetch_sample :: "string \<Rightarrow> bytes option" where
  "fetch_sample u = Some sample_bytes"

text \<open>A store whose record for the document does not parse.\<close>

definition broken_store :: Persistence where
  "broken_store =
     \<lparr>encodeURIComponent = (\<lambda>u. Some ''%2Ffake.pdf''), getItem = (\<lambda>k. Stored ''{oops''),
      JSON_parse = (\<lambda>raw. None)\<rparr>"

section \<open>Decimal strings are read back by \<^verbatim>\<open>parseInt\<close>\<close>

lemma digit_cases: "d < 10 \<Longrightarrow> d \<in> {0, 1, 2, 3, 4, 5, 6, 7, 8, 9::nat}"
  by auto

lemma is_digit_nth: "d < 10 \<Longrightarrow> is_digit (''0123456789'' ! d)"
  using digit_cases [of d] by (auto simp: is_digit_def)

lemma digit_val_nth: "d < 10 \<Longrightarrow> digit_val (''0123456789'' ! d) = d"
  using digit_cases [of d] by (auto simp: digit_val_def)

lemma is_digit_not_space:
  "is_digit c \<Longrightarrow> \<not> is_space c \<and> c \<noteq> CHR ''-'' \<and> c \<noteq> CHR ''+''"
  by (auto simp: is_digit_def is_space_def)

lemma decimal_digits: "list_all is_digit (decimal n) \<and> decimal n \<noteq> []"
proof (induction n rule: decimal.induct)
  case (1 n)
  show ?case
  proof (cases "n < 10")
    case True
    then show ?thesis by (simp add: decimal.simps [of n] is_digit_nth)
  next
    case False
    with 1 show ?thesis
      by (simp add: decimal.simps [of n] is_digit_nth)
  qed
qed

lemma digits_value_snoc: "digits_value (ds @ [c]) = 10 * digits_value ds + digit_val c"
  by (simp add: digits_value_def)

lemma digits_value_decimal: "digits_value (decimal n) = n"
proof (induction n rule: decimal.induct)
  case (1 n)
  show ?case
  proof (cases "n < 10")
    case True
    then show ?thesis
      by (simp add: decimal.simps [of n] digits_value_def digit_val_nth)
  next
    case False
    with 1 have "digits_value (decimal (n div 10)) = n div 10" by simp
    with False show ?thesis
      by (simp add: decimal.simps [of n] digits_value_snoc digit_val_nth)
  qed
qed

lemma parseInt10_digits:
  assumes "list_all is_digit m" and "m \<noteq> []"
  shows "parseInt10 m = Some (int (digits_value m))"
proof -
  obtain c cs where cs: "m = c # cs"
    using assms(2) by (cases m) auto
  have c: "is_digit c" using assms(1) cs by simp
  have tw: "takeWhile is_digit (c # cs) = c # cs"
    using assms(1) cs by (simp add: list_all_iff del: takeWhile.simps)
  show ?thesis
    using is_digit_not_space [OF c]
    by (simp add: parseInt10_def cs Let_def tw del: takeWhile.simps)
qed

lemma parseInt10_decimal: "parseInt10 (decimal n) = Some (int n)"
  using parseInt10_digits [of "decimal n"] decimal_digits [of n]
  by (simp add: digits_value_decimal)

lemma range_value_bounds:
  "\<exists>n. range_input_value offered = decimal n \<and> 8 \<le> n \<and> n \<le> 72"
proof (cases offered)
  case None
  then show ?thesis
    by (auto simp: range_input_value_def range_min_def range_max_def intro!: exI [of _ 40])
next
  case (Some v)
  show ?thesis
  proof (cases "v < 8")
    case True
    with Some show ?thesis
      by (auto simp: range_input_value_def range_min_def range_max_def intro!: exI [of _ 8])
  next
    case lo: False
    show ?thesis
    proof (cases "72 < v")
      case True
      with Some lo show ?thesis
        by (auto simp: range_input_value_def range_min_def range_max_def intro!: exI [of _ 72])
    next
      case False
      with lo have "8 \<le> \<lfloor>v + 1 / 2\<rfloor>" "\<lfloor>v + 1 / 2\<rfloor> \<le> 72" by linarith+
      then have "8 \<le> nat \<lfloor>v + 1 / 2\<rfloor> \<and> nat \<lfloor>v + 1 / 2\<rfloor> \<le> 72" by linarith
      with Some lo False show ?thesis
        by (auto simp: range_input_value_def range_min_def range_max_def)
    qed
  qed
qed

section \<open>The overlay store, page by page\<close>

lemma page_seq_add:
  "page_seq (addTextOverlay ps i u ov) j =
     (if j = i then page_seq ov i @ [newOverlay ps i u] else page_seq ov j)"
  by (simp add: addTextOverlay_def page_seq_def)

lemma page_seq_update:
  "page_seq (updateOverlay i ident p ov) j =
     (if j = i then map (\<lambda>it. if o_id it = ident then merge_item it p else it) (page_seq ov i)
      else page_seq ov j)"
  by (simp add: updateOverlay_def page_seq_def)

lemma page_seq_remove:
  "page_seq (removeOverlay i ident ov) j =
     (if j = i then filter (\<lambda>it. o_id it \<noteq> ident) (page_seq ov i) else page_seq ov j)"
  by (simp add: removeOverlay_def page_seq_def)

lemma merge_item_id: "p_id p = None \<Longrightarrow> o_id (merge_item it p) = o_id it"
  by (simp add: merge_item_def)

lemma merge_item_sel:
  "o_x (merge_item it p) = (case p_x p of Some v \<Rightarrow> v | None \<Rightarrow> o_x it)"
  "o_y (merge_item it p) = (case p_y p of Some v \<Rightarrow> v | None \<Rightarrow> o_y it)"
  "o_fontSize (merge_item it p) = (case p_fontSize p of Some v \<Rightarrow> v | None \<Rightarrow> o_fontSize it)"
  by (simp_all add: merge_item_def)

lemma updated_items:
  assumes "it \<in> set (page_seq (updateOverlay i ident p ov) i)" and "o_id it = ident"
    and "p_id p = None"
  shows "\<exists>old \<in> set (page_seq ov i). it = merge_item old p"
proof -
  from assms(1) obtain old where old: "old \<in> set (page_seq ov i)"
    "it = (if o_id old = ident then merge_item old p else old)"
    by (auto simp: page_seq_update)
  with assms(2) have "it = merge_item old p"
    by (cases "o_id old = ident") simp_all
  with old(1) show ?thesis by blast
qed

text \<open>Every update operation of the page view is an \<open>updateOverlay\<close> whose partial leaves
  the id alone and carries normalized coordinates, if any.\<close>

lemma apply_edit_is_update:
  "\<exists>p. p_id p = None \<and>
       (case p_x p of None \<Rightarrow> True | Some v \<Rightarrow> 0 \<le> v \<and> v \<le> 1) \<and>
       (case p_y p of None \<Rightarrow> True | Some v \<Rightarrow> 0 \<le> v \<and> v \<le> 1) \<and>
       apply_edit ps i ident e ov = Some (updateOverlay i ident p ov)"
proof (cases e)
  case (DragStop px py)
  then show ?thesis
    by (auto simp: onStop_def Let_def no_fields_def drag_norm_def
        intro!: exI [of _ "no_fields\<lparr>p_x := Some (drag_norm px (width (layout_size ps i))),
                                     p_y := Some (drag_norm py (height (layout_size ps i)))\<rparr>"])
next
  case (EditText v)
  then show ?thesis
    by (auto simp: onTextChange_def no_fields_def intro!: exI [of _ "no_fields\<lparr>p_text := Some v\<rparr>"])
next
  case (EditColor v)
  then show ?thesis
    by (auto simp: onColorChange_def no_fields_def intro!: exI [of _ "no_fields\<lparr>p_color := Some v\<rparr>"])
next
  case (EditFontSize offered)
  obtain n where n: "range_input_value offered = decimal n"
    using range_value_bounds by blast
  with EditFontSize show ?thesis
    by (auto simp: onFontSizeChange_def parseInt10_decimal no_fields_def
        intro!: exI [of _ "no_fields\<lparr>p_fontSize := Some (of_int (int n))\<rparr>"])
qed

lemma drag_norm_range: "0 \<le> drag_norm px ext \<and> drag_norm px ext \<le> 1"
  by (simp add: drag_norm_def)

lemma update_keeps_in01:
  assumes "case p_x p of None \<Rightarrow> True | Some v \<Rightarrow> 0 \<le> v \<and> v \<le> 1"
    and "case p_y p of None \<Rightarrow> True | Some v \<Rightarrow> 0 \<le> v \<and> v \<le> 1"
    and "page_in01 ov j"
  shows "page_in01 (updateOverlay i ident p ov) j"
  using assms
  by (auto simp: page_in01_def page_seq_update list_all_iff in01_def merge_item_def
      split: option.splits)

lemma step_keeps_in01:
  assumes "page_in01 ov j"
  shows "\<exists>ov'. step ps a ov = Some ov' \<and> page_in01 ov' j"
proof (cases a)
  case (AddText i u)
  with assms show ?thesis
    by (auto simp: page_in01_def page_seq_add in01_def newOverlay_def)
next
  case (Edit i ident e)
  obtain p where "p_id p = None"
    "case p_x p of None \<Rightarrow> True | Some v \<Rightarrow> 0 \<le> v \<and> v \<le> 1"
    "case p_y p of None \<Rightarrow> True | Some v \<Rightarrow> 0 \<le> v \<and> v \<le> 1"
    "apply_edit ps i ident e ov = Some (updateOverlay i ident p ov)"
    using apply_edit_is_update by blast
  with Edit assms show ?thesis
    by (simp add: update_keeps_in01)
next
  case (Remove i ident)
  with assms show ?thesis
    by (auto simp: page_in01_def page_seq_remove list_all_iff)
qed

text \<open>Whatever the user does from the page view, starting from normalized overlays (the
  empty collection, say), the overlays of every page stay normalized.\<close>

lemma run_keeps_in01:
  "page_in01 ov j \<Longrightarrow> \<exists>ov'. run ps as ov = Some ov' \<and> page_in01 ov' j"
proof (induction as arbitrary: ov)
  case Nil
  then show ?case by simp
next
  case (Cons a as)
  obtain ov1 where "step ps a ov = Some ov1" "page_in01 ov1 j"
    using step_keeps_in01 [OF Cons.prems] by blast
  with Cons.IH [of ov1] show ?case by simp
qed

lemma run_append:
  "run ps (as @ bs) ov = (case run ps as ov of None \<Rightarrow> None | Some ov' \<Rightarrow> run ps bs ov')"
  by (induction as arbitrary: ov) (auto split: option.splits)

lemma update_keeps_last:
  assumes "page_seq ov1 i = xs @ [it]" and "o_id it = u" and "u \<notin> o_id ` set xs"
    and "p_id p = None"
  shows "\<exists>it'. page_seq (updateOverlay i u p ov1) i = xs @ [it'] \<and> o_id it' = u"
proof -
  have "map (\<lambda>it. if o_id it = u then merge_item it p else it) xs = xs"
    using assms(3) by (induction xs) auto
  with assms show ?thesis
    by (simp add: page_seq_update merge_item_id)
qed

lemma edits_keep_last:
  assumes "u \<notin> o_id ` set xs"
  shows "page_seq ov1 i = xs @ [it] \<Longrightarrow> o_id it = u \<Longrightarrow>
     \<exists>ov2 it'. run ps (map (Edit i u) es) ov1 = Some ov2 \<and>
        page_seq ov2 i = xs @ [it'] \<and> o_id it' = u \<and>
        (\<forall>j. j \<noteq> i \<longrightarrow> page_seq ov2 j = page_seq ov1 j)"
proof (induction es arbitrary: ov1 it)
  case Nil
  then show ?case by simp
next
  case (Cons e es)
  obtain p where p: "p_id p = None"
    "apply_edit ps i u e ov1 = Some (updateOverlay i u p ov1)"
    using apply_edit_is_update by blast
  obtain it1 where it1: "page_seq (updateOverlay i u p ov1) i = xs @ [it1]" "o_id it1 = u"
    using update_keeps_last [OF Cons.prems(1) Cons.prems(2) assms p(1)] by blast
  obtain ov2 it' where r: "run ps (map (Edit i u) es) (updateOverlay i u p ov1) = Some ov2"
    "page_seq ov2 i = xs @ [it']" "o_id it' = u"
    "\<forall>j. j \<noteq> i \<longrightarrow> page_seq ov2 j = page_seq (updateOverlay i u p ov1) j"
    using Cons.IH [OF it1] by blast
  from r(4) have "\<forall>j. j \<noteq> i \<longrightarrow> page_seq ov2 j = page_seq ov1 j"
    by (simp add: page_seq_update)
  with p r show ?case by simp
qed

section \<open>Coordinates\<close>

text \<open>C2: a normalized position laid out on the surface of a page of positive size and
  converted back by the drag-stop conversion is the position itself. Numbers are real
  numbers here, so the round trip is exact; in floating point it holds up to rounding,
  which \<open>roundtrip_rounded\<close> below bounds.\<close>

theorem drag_of_layout_roundtrip:
  assumes "in01 it" and "0 < width sz" and "0 < height sz"
  shows "drag_norm (fst (defaultPosition sz it)) (width sz) = o_x it \<and>
         drag_norm (snd (defaultPosition sz it)) (height sz) = o_y it"
  using assms by (simp add: in01_def defaultPosition_def drag_norm_def)

theorem drag_of_layout_roundtrip_witness:
  "in01 (sample_item\<lparr>o_x := 0.25, o_y := 0.75\<rparr>) \<and> 0 < width a4 \<and> 0 < height a4 \<and>
   defaultPosition a4 (sample_item\<lparr>o_x := 0.25, o_y := 0.75\<rparr>) = (148.75, 631.5) \<and>
   drag_norm 148.75 (width a4) = 0.25 \<and> drag_norm 631.5 (height a4) = 0.75"
proof -
  let ?it = "sample_item\<lparr>o_x := 0.25, o_y := 0.75\<rparr>"
  have a: "in01 ?it" by (simp add: in01_def sample_item_def)
  have w: "0 < width a4" and h: "0 < height a4" by (simp_all add: a4_def)
  have p: "defaultPosition a4 ?it = (148.75, 631.5)"
    by (simp add: defaultPosition_def a4_def sample_item_def)
  from drag_of_layout_roundtrip [OF a w h, unfolded p]
  have "drag_norm 148.75 (width a4) = 0.25 \<and> drag_norm 631.5 (height a4) = 0.75"
    by simp
  with a w h p show ?thesis by blast
qed

text \<open>The same round trip when the product \<open>x * width\<close> and the quotient by the width
  each carry a relative rounding error of at most \<open>u\<close>, as floating-point operations do
  away from underflow and overflow: the result is within \<open>3 * u\<close> of the position.\<close>

lemma roundtrip_rounded:
  assumes "0 \<le> x" and "x \<le> 1" and "0 < w"
    and "\<bar>d1\<bar> \<le> u" and "\<bar>d2\<bar> \<le> u" and "u \<le> 1"
  shows "\<bar>drag_norm (x * w * (1 + d1) * (1 + d2)) w - x\<bar> \<le> 3 * u"
proof -
  define q where "q = x * ((1 + d1) * (1 + d2))"
  have pq: "x * w * (1 + d1) * (1 + d2) / w = q"
    using assms(3) by (simp add: q_def)
  have u0: "0 \<le> u" using assms(4) by linarith
  have t1: "\<bar>d1 + d2 + d1 * d2\<bar> \<le> \<bar>d1 + d2\<bar> + \<bar>d1 * d2\<bar>"
    by (rule abs_triangle_ineq)
  have t2: "\<bar>d1 + d2\<bar> \<le> \<bar>d1\<bar> + \<bar>d2\<bar>"
    by (rule abs_triangle_ineq)
  have t3: "\<bar>d1 * d2\<bar> = \<bar>d1\<bar> * \<bar>d2\<bar>"
    by (rule abs_mult)
  have t4: "\<bar>d1\<bar> * \<bar>d2\<bar> \<le> u * u"
    using assms(4,5) by (intro mult_mono) simp_all
  have "u * u \<le> u * 1"
    using assms(6) u0 by (rule mult_left_mono)
  then have t5: "u * u \<le> u" by simp
  have e: "\<bar>d1 + d2 + d1 * d2\<bar> \<le> 3 * u"
    using t1 t2 t3 t4 t5 assms(4,5) by linarith
  have qx: "q - x = x * (d1 + d2 + d1 * d2)"
    by (simp add: q_def algebra_simps)
  have "\<bar>q - x\<bar> = x * \<bar>d1 + d2 + d1 * d2\<bar>"
    using assms(1) by (simp only: qx abs_mult abs_of_nonneg)
  also have "\<dots> \<le> 1 * (3 * u)"
    using assms(1,2) e u0 by (intro mult_mono) simp_all
  finally have dq: "\<bar>q - x\<bar> \<le> 3 * u" by simp
  have "\<bar>min 1 (max 0 q) - x\<bar> \<le> \<bar>q - x\<bar>"
    using assms(1,2) by linarith
  with dq have "\<bar>min 1 (max 0 q) - x\<bar> \<le> 3 * u" by linarith
  then show ?thesis
    by (simp only: drag_norm_def pq)
qed

text \<open>C3: for a page of positive size the drag-stop conversion of any surface position,
  also a negative one or one beyond the page, lies in \<open>[0, 1]\<close> in both coordinates; so
  after a drag stop the dragged overlay is normalized, and a page whose overlays were
  all normalized before still has only normalized overlays.\<close>

theorem drag_stop_normalized:
  assumes "0 < width sz" and "0 < height sz"
  shows "0 \<le> drag_norm px (width sz) \<and> drag_norm px (width sz) \<le> 1 \<and>
         0 \<le> drag_norm py (height sz) \<and> drag_norm py (height sz) \<le> 1 \<and>
         (\<forall>it \<in> set (page_seq (onStop sz pageIndex ident (px, py) ov) pageIndex).
            o_id it = ident \<longrightarrow> in01 it) \<and>
         (page_in01 ov j \<longrightarrow> page_in01 (onStop sz pageIndex ident (px, py) ov) j)"
proof -
  let ?p = "no_fields\<lparr>p_x := Some (drag_norm px (width sz)),
                       p_y := Some (drag_norm py (height sz))\<rparr>"
  have upd: "onStop sz pageIndex ident (px, py) ov = updateOverlay pageIndex ident ?p ov"
    by (simp add: onStop_def Let_def)
  have items: "\<forall>it \<in> set (page_seq (updateOverlay pageIndex ident ?p ov) pageIndex).
      o_id it = ident \<longrightarrow> in01 it"
  proof (intro ballI impI)
    fix it
    assume "it \<in> set (page_seq (updateOverlay pageIndex ident ?p ov) pageIndex)"
      and "o_id it = ident"
    then obtain old where "it = merge_item old ?p"
      using updated_items [of it pageIndex ident ?p ov] by (auto simp: no_fields_def)
    then show "in01 it"
      by (simp add: in01_def merge_item_sel drag_norm_range)
  qed
  have keep: "page_in01 ov j \<longrightarrow> page_in01 (onStop sz pageIndex ident (px, py) ov) j"
    by (simp add: upd update_keeps_in01 drag_norm_range)
  show ?thesis
    using items keep by (simp add: upd drag_norm_range)
qed

theorem drag_stop_normalized_witness:
  "0 < width \<lparr>width = 800, height = 600\<rparr> \<and> 0 < height \<lparr>width = 800, height = 600\<rparr> \<and>
   page_in01 sample_overlays 0 \<and>
   drag_norm (- 5) 800 = 0 \<and> drag_norm 700 600 = 1 \<and>
   page_seq (onStop \<lparr>width = 800, height = 600\<rparr> 0 ''a'' (- 5, 700) sample_overlays) 0
     = [sample_item\<lparr>o_x := 0, o_y := 1\<rparr>] \<and>
   page_in01 (onStop \<lparr>width = 800, height = 600\<rparr> 0 ''a'' (- 5, 700) sample_overlays) 0"
proof -
  let ?sz = "\<lparr>width = 800, height = 600\<rparr>"
  have w: "0 < width ?sz" and h: "0 < height ?sz" by simp_all
  have pre: "page_in01 sample_overlays 0"
    by (simp add: page_in01_def page_seq_def in01_def sample_overlays_def sample_item_def)
  have d: "drag_norm (- 5) 800 = 0 \<and> drag_norm 700 600 = 1" by (simp add: drag_norm_def)
  have seq: "page_seq sample_overlays 0 = [sample_item]"
    by (simp add: sample_overlays_def page_seq_def)
  have s: "page_seq (onStop ?sz 0 ''a'' (- 5, 700) sample_overlays) 0
      = [sample_item\<lparr>o_x := 0, o_y := 1\<rparr>]"
    by (simp add: onStop_def Let_def page_seq_update seq d merge_item_def no_fields_def
        sample_item_def)
  from drag_stop_normalized [OF w h, of "- 5" 700 0 "''a''" sample_overlays 0] pre
  have "page_in01 (onStop ?sz 0 ''a'' (- 5, 700) sample_overlays) 0" by blast
  with w h pre d s show ?thesis by blast
qed

section \<open>Identity of overlays\<close>

text \<open>C4: adding an overlay under an id that the page does not use yet, then applying any
  sequence of the page view's update operations (drag stops, text, colour and font-size
  edits) to that id, then removing the id, goes through and leaves the overlay sequence
  of that page, and of every other page, as it was before the add.\<close>

theorem add_update_remove_restores:
  assumes "uuid \<notin> o_id ` set (page_seq ov pageIndex)"
  shows "\<exists>ov'. run pageSizes
            (AddText pageIndex uuid # map (Edit pageIndex uuid) es @ [Remove pageIndex uuid]) ov
          = Some ov' \<and> page_seq ov' = page_seq ov"
proof -
  let ?ov1 = "addTextOverlay pageSizes pageIndex uuid ov"
  have s1: "page_seq ?ov1 pageIndex = page_seq ov pageIndex @ [newOverlay pageSizes pageIndex uuid]"
    by (simp add: page_seq_add)
  have id1: "o_id (newOverlay pageSizes pageIndex uuid) = uuid"
    by (simp add: newOverlay_def)
  obtain ov2 it' where r: "run pageSizes (map (Edit pageIndex uuid) es) ?ov1 = Some ov2"
    "page_seq ov2 pageIndex = page_seq ov pageIndex @ [it']" "o_id it' = uuid"
    "\<forall>j. j \<noteq> pageIndex \<longrightarrow> page_seq ov2 j = page_seq ?ov1 j"
    using edits_keep_last [OF assms s1 id1] by blast
  have flt: "filter (\<lambda>it. o_id it \<noteq> uuid) (page_seq ov pageIndex) = page_seq ov pageIndex"
    using assms by (auto simp: filter_id_conv)
  have "page_seq (removeOverlay pageIndex uuid ov2) j = page_seq ov j" for j
    using r(2,3,4) flt by (simp add: page_seq_remove page_seq_add)
  then have "page_seq (removeOverlay pageIndex uuid ov2) = page_seq ov" by (rule ext)
  with r(1) show ?thesis by (simp add: run_append)
qed

theorem add_update_remove_restores_witness:
  "''b'' \<notin> o_id ` set (page_seq sample_overlays 0) \<and>
   (\<exists>ov'. run [a4]
      [AddText 0 ''b'', Edit 0 ''b'' (DragStop 700 (- 3)), Edit 0 ''b'' (EditText ''Hello''),
       Edit 0 ''b'' (EditFontSize (Some 100)), Remove 0 ''b''] sample_overlays = Some ov' \<and>
      page_seq ov' 0 = [sample_item])"
proof -
  have fresh: "''b'' \<notin> o_id ` set (page_seq sample_overlays 0)"
    by (simp add: sample_overlays_def sample_item_def page_seq_def)
  have seq: "page_seq sample_overlays 0 = [sample_item]"
    by (simp add: sample_overlays_def page_seq_def)
  from add_update_remove_restores [OF fresh,
      of "[a4]" "[DragStop 700 (- 3), EditText ''Hello'', EditFontSize (Some 100)]"]
  show ?thesis using fresh seq by auto
qed

section \<open>Font-size editor\<close>




text \<open>A range control with these bounds reports such numerals only, so an edit made
  through the control stores a font size between 8 and 72.\<close>

lemma range_control_edit_in_range:
  "\<exists>ov'. onFontSizeChange pageIndex ident (range_input_value offered) prev = Some ov' \<and>
     (\<forall>it \<in> set (page_seq ov' pageIndex).
        o_id it = ident \<longrightarrow> 8 \<le> o_fontSize it \<and> o_fontSize it \<le> 72)"
proof -
  obtain n where n: "range_input_value offered = decimal n" "8 \<le> n" "n \<le> 72"
    using range_value_bounds by blast
  let ?p = "no_fields\<lparr>p_fontSize := Some (of_int (int n))\<rparr>"
  have run: "onFontSizeChange pageIndex ident (range_input_value offered) prev
      = Some (updateOverlay pageIndex ident ?p prev)"
    by (simp add: onFontSizeChange_def n(1) parseInt10_decimal)
  have "\<forall>it \<in> set (page_seq (updateOverlay pageIndex ident ?p prev) pageIndex).
      o_id it = ident \<longrightarrow> 8 \<le> o_fontSize it \<and> o_fontSize it \<le> 72"
  proof (intro ballI impI)
    fix it
    assume "it \<in> set (page_seq (updateOverlay pageIndex ident ?p prev) pageIndex)"
      and "o_id it = ident"
    then obtain old where "it = merge_item old ?p"
      using updated_items [of it pageIndex ident ?p prev] by (auto simp: no_fields_def)
    then show "8 \<le> o_fontSize it \<and> o_fontSize it \<le> 72"
      using n(2,3) by (simp add: merge_item_sel)
  qed
  with run show ?thesis by blast
qed

section \<open>Colour resolution\<close>

lemma digits1_Some:
  "digits1 s = Some (m, r) \<Longrightarrow> list_all is_digit m \<and> m \<noteq> []"
  by (auto simp: digits1_def Let_def list_all_iff split: if_splits dest: set_takeWhileD)

lemma channel_digits:
  assumes "list_all is_digit m" and "m \<noteq> []"
  shows "\<exists>c. channel m = Some c \<and> 0 \<le> c \<and> c \<le> 255"
  by (simp add: channel_def parseInt10_digits [OF assms])

lemma rgb_match_here_digits:
  assumes "rgb_match_here s = Some (m1, m2, m3)"
  shows "(list_all is_digit m1 \<and> m1 \<noteq> []) \<and> (list_all is_digit m2 \<and> m2 \<noteq> []) \<and>
         (list_all is_digit m3 \<and> m3 \<noteq> [])"
  using assms unfolding rgb_match_here_def
  by (auto split: option.splits prod.splits dest!: digits1_Some)

lemma rgb_exec_digits:
  "rgb_exec s = Some (m1, m2, m3) \<Longrightarrow>
     (list_all is_digit m1 \<and> m1 \<noteq> []) \<and> (list_all is_digit m2 \<and> m2 \<noteq> []) \<and>
     (list_all is_digit m3 \<and> m3 \<noteq> [])"
proof (induction s)
  case Nil
  then show ?case by simp
next
  case (Cons c cs)
  show ?case
  proof (cases "rgb_match_here (c # cs)")
    case None
    with Cons show ?thesis by simp
  next
    case (Some m)
    with Cons.prems have "rgb_match_here (c # cs) = Some (m1, m2, m3)" by simp
    then show ?thesis by (rule rgb_match_here_digits)
  qed
qed

lemma css_color_cases:
  "\<exists>r g b. cssColorToRgb01 cv color = Some (r, g, b) \<and>
     0 \<le> r \<and> r \<le> 1 \<and> 0 \<le> g \<and> g \<le> 1 \<and> 0 \<le> b \<and> b \<le> 1"
proof (cases "ctx_available cv")
  case False
  then show ?thesis by (simp add: cssColorToRgb01_def)
next
  case True
  show ?thesis
  proof (cases "rgb_exec (computed_fillStyle cv color)")
    case None
    with True show ?thesis by (simp add: cssColorToRgb01_def)
  next
    case (Some m)
    obtain m1 m2 m3 where m: "m = (m1, m2, m3)" by (cases m) auto
    note d = rgb_exec_digits [OF Some [unfolded m]]
    obtain r where r: "channel m1 = Some r" "0 \<le> r" "r \<le> 255"
      using channel_digits d by blast
    obtain g where g: "channel m2 = Some g" "0 \<le> g" "g \<le> 255"
      using channel_digits d by blast
    obtain b where b: "channel m3 = Some b" "0 \<le> b" "b \<le> 255"
      using channel_digits d by blast
    have "cssColorToRgb01 cv color = Some (r / 255, g / 255, b / 255)"
      using True Some m r(1) g(1) b(1) by (simp add: cssColorToRgb01_def)
    moreover have "0 \<le> r / 255 \<and> r / 255 \<le> 1 \<and> 0 \<le> g / 255 \<and> g / 255 \<le> 1 \<and>
        0 \<le> b / 255 \<and> b / 255 \<le> 1"
      using r(2,3) g(2,3) b(2,3) by simp
    ultimately show ?thesis by blast
  qed
qed

lemma rgb_of_css:
  "\<exists>c. cssColorToRgb01 cv color = Some c \<and> rgb c = Some c"
  using css_color_cases [of cv color] by (auto simp: rgb_def)

lemma draw_items_not_colour:
  "draw_items w cv d font i its made \<noteq> Inl (Colouring, calls)"
proof (induction its arbitrary: made)
  case Nil
  then show ?case by simp
next
  case (Cons it rest)
  obtain c where c: "cssColorToRgb01 cv (o_color it) = Some c" "rgb c = Some c"
    using rgb_of_css by blast
  show ?case
    using Cons.IH c by (simp add: Let_def split: option.splits)
qed

lemma draw_pages_not_colour:
  "draw_pages w cv d font ov pages made \<noteq> Inl (Colouring, calls)"
proof (induction pages arbitrary: made)
  case Nil
  then show ?case by simp
next
  case (Cons i rest)
  then show ?case
    using draw_items_not_colour [of w cv d font i "page_seq ov i" made calls]
    by (auto split: sum.splits)
qed

text \<open>C9: for every colour string the resolution returns a triple whose components lie
  in \<open>[0, 1]\<close>, which \<^verbatim>\<open>rgb\<close> accepts; when there is no 2d context, or the string read
  back from \<^verbatim>\<open>fillStyle\<close> has no \<^verbatim>\<open>rgb(\<close>/\<^verbatim>\<open>rgba(\<close> form in it, the triple is black;
  and no export stops in the colour step.\<close>

theorem color_resolution_total:
  "\<exists>r g b. cssColorToRgb01 cv color = Some (r, g, b) \<and>
     0 \<le> r \<and> r \<le> 1 \<and> 0 \<le> g \<and> g \<le> 1 \<and> 0 \<le> b \<and> b \<le> 1 \<and>
     rgb (r, g, b) = Some (r, g, b) \<and>
     (\<not> ctx_available cv \<or> rgb_exec (computed_fillStyle cv color) = None
        \<longrightarrow> (r, g, b) = (0, 0, 0)) \<and>
     export_body w cv buf ov \<noteq> Inl (Colouring, calls)"
proof -
  obtain r g b where c: "cssColorToRgb01 cv color = Some (r, g, b)"
    "0 \<le> r" "r \<le> 1" "0 \<le> g" "g \<le> 1" "0 \<le> b" "b \<le> 1"
    using css_color_cases by blast
  have black: "\<not> ctx_available cv \<or> rgb_exec (computed_fillStyle cv color) = None
      \<longrightarrow> (r, g, b) = (0, 0, 0)"
    using c(1) by (auto simp: cssColorToRgb01_def split: if_splits)
  have ok: "rgb (r, g, b) = Some (r, g, b)"
    using c by (simp add: rgb_def)
  have ex: "export_body w cv buf ov \<noteq> Inl (Colouring, calls)"
    using draw_pages_not_colour [of w cv _ _ ov _ "[]" calls]
    by (auto simp: export_body_def split: option.splits sum.splits)
  show ?thesis
    using c black ok ex
    by - (rule exI [of _ r], rule exI [of _ g], rule exI [of _ b], simp)
qed

theorem color_resolution_total_witness:
  "rgb_exec (computed_fillStyle sample_canvas ''#111827'') = None \<and>
   cssColorToRgb01 sample_canvas ''#111827'' = Some (0, 0, 0) \<and>
   cssColorToRgb01 sample_canvas ''#ff000080'' = Some (1, 0, 0)"
proof -
  have none: "rgb_exec (computed_fillStyle sample_canvas ''#111827'') = None"
    by (simp add: sample_canvas_def rgb_match_here_def)
  obtain r g b where c: "cssColorToRgb01 sample_canvas ''#111827'' = Some (r, g, b)"
    "\<not> ctx_available sample_canvas \<or>
       rgb_exec (computed_fillStyle sample_canvas ''#111827'') = None
       \<longrightarrow> (r, g, b) = (0, 0, 0)"
    using color_resolution_total [of sample_canvas "''#111827''" one_page_writer sample_bytes
        sample_overlays "[]"]
    by auto
  from c none have black: "cssColorToRgb01 sample_canvas ''#111827'' = Some (0, 0, 0)"
    by simp
  have red: "cssColorToRgb01 sample_canvas ''#ff000080'' = Some (1, 0, 0)"
    by (simp add: cssColorToRgb01_def sample_canvas_def rgb_match_here_def digits1_def
        is_digit_def is_space_def channel_def parseInt10_def digits_value_def digit_val_def)
  from none black red show ?thesis by blast
qed

section \<open>Export\<close>

lemma draw_items_Inr:
  "draw_items w cv d font i its made = Inr made' \<Longrightarrow>
     map placed made' = map placed made @ map (plan_item w d i) its"
proof (induction its arbitrary: made)
  case Nil
  then show ?case by simp
next
  case (Cons it rest)
  from Cons.prems show ?case
    by (auto simp: Let_def placed_def plan_item_def toPdfPoint_def
        split: option.splits if_splits dest!: Cons.IH)
qed

lemma draw_items_Inl:
  "draw_items w cv d font i its made = Inl (e, made') \<Longrightarrow>
     \<exists>rest. map placed made @ map (plan_item w d i) its = map placed made' @ rest"
proof (induction its arbitrary: made)
  case Nil
  then show ?case by simp
next
  case (Cons it rest)
  from Cons.prems show ?case
    by (auto simp: Let_def placed_def plan_item_def toPdfPoint_def
        split: option.splits if_splits dest!: Cons.IH)
qed

lemma draw_pages_Inr:
  "draw_pages w cv d font ov pages made = Inr made' \<Longrightarrow>
     map placed made' =
       map placed made @ concat (map (\<lambda>i. map (plan_item w d i) (page_seq ov i)) pages)"
proof (induction pages arbitrary: made)
  case Nil
  then show ?case by simp
next
  case (Cons i rest)
  from Cons.prems show ?case
    by (auto split: sum.splits dest!: Cons.IH draw_items_Inr)
qed

lemma draw_pages_Inl:
  "draw_pages w cv d font ov pages made = Inl (e, made') \<Longrightarrow>
     \<exists>rest. map placed made @ concat (map (\<lambda>i. map (plan_item w d i) (page_seq ov i)) pages)
        = map placed made' @ rest"
proof (induction pages arbitrary: made)
  case Nil
  then show ?case by simp
next
  case (Cons i rest)
  show ?case
  proof (cases "draw_items w cv d font i (page_seq ov i) made")
    case (Inl a)
    with Cons.prems have "draw_items w cv d font i (page_seq ov i) made = Inl (e, made')"
      by simp
    from draw_items_Inl [OF this]
    obtain r where r: "map placed made @ map (plan_item w d i) (page_seq ov i)
        = map placed made' @ r" by blast
    have "map placed made @
        concat (map (\<lambda>i. map (plan_item w d i) (page_seq ov i)) (i # rest))
        = (map placed made @ map (plan_item w d i) (page_seq ov i)) @
          concat (map (\<lambda>i. map (plan_item w d i) (page_seq ov i)) rest)"
      by simp
    also have "\<dots> = map placed made' @
        (r @ concat (map (\<lambda>i. map (plan_item w d i) (page_seq ov i)) rest))"
      by (simp only: r append_assoc)
    finally show ?thesis by blast
  next
    case (Inr made1)
    with Cons.prems have "draw_pages w cv d font ov rest made1 = Inl (e, made')" by simp
    from Cons.IH [OF this] draw_items_Inr [OF Inr] show ?thesis by auto
  qed
qed

lemma placed_call:
  "placed \<lparr>dc_page = i, dc_text = o_text it, dc_x = o_x it * w_getWidth w d i,
            dc_y = w_getHeight w d i - o_y it * w_getHeight w d i - o_fontSize it,
            dc_size = o_fontSize it, dc_color = col\<rparr> = plan_item w d i it"
  by (simp add: placed_def plan_item_def toPdfPoint_def)

lemma draw_items_step:
  assumes "w_widthOfTextAtSize w font (o_text it) (o_fontSize it) = Some tw"
  shows "\<exists>call. placed call = plan_item w d i it \<and>
           draw_items w cv d font i (it # rest) made =
             (if w_drawText w d font made call
              then draw_items w cv d font i rest (made @ [call])
              else Inl (Drawing, made))"
proof -
  obtain c where c: "cssColorToRgb01 cv (o_color it) = Some c" "rgb c = Some c"
    using rgb_of_css by blast
  let ?call = "\<lparr>dc_page = i, dc_text = o_text it, dc_x = o_x it * w_getWidth w d i,
            dc_y = w_getHeight w d i - o_y it * w_getHeight w d i - o_fontSize it,
            dc_size = o_fontSize it, dc_color = c\<rparr>"
  have "draw_items w cv d font i (it # rest) made =
             (if w_drawText w d font made ?call
              then draw_items w cv d font i rest (made @ [?call])
              else Inl (Drawing, made))"
    using assms c by (simp add: Let_def)
  with placed_call [of i it w d c] show ?thesis by blast
qed

lemma draw_items_measure_fails:
  "w_widthOfTextAtSize w font (o_text it) (o_fontSize it) = None \<Longrightarrow>
     draw_items w cv d font i (it # rest) made = Inl (Measuring, made)"
  by simp

text \<open>When measuring succeeds for every overlay and \<^verbatim>\<open>drawText\<close> accepts every call
  that places one of them, the inner loop runs to its end.\<close>

lemma draw_items_all_ok:
  assumes "\<forall>it \<in> set its. w_widthOfTextAtSize w font (o_text it) (o_fontSize it) \<noteq> None"
    and "\<forall>made call. placed call \<in> plan_item w d i ` set its \<longrightarrow> w_drawText w d font made call"
  shows "\<exists>made'. draw_items w cv d font i its made = Inr made'"
  using assms
proof (induction its arbitrary: made)
  case Nil
  then show ?case by simp
next
  case (Cons it rest)
  from Cons.prems(1) obtain tw where
    tw: "w_widthOfTextAtSize w font (o_text it) (o_fontSize it) = Some tw" by auto
  from draw_items_step [OF tw, of d i cv rest made] obtain call where
    call: "placed call = plan_item w d i it"
      "draw_items w cv d font i (it # rest) made =
         (if w_drawText w d font made call
          then draw_items w cv d font i rest (made @ [call])
          else Inl (Drawing, made))" by blast
  have ok: "w_drawText w d font made call"
    using Cons.prems(2) call(1) by simp
  have "\<exists>made'. draw_items w cv d font i rest (made @ [call]) = Inr made'"
    using Cons.prems by (intro Cons.IH) auto
  with call(2) ok show ?case by (simp del: draw_items.simps)
qed

lemma draw_pages_all_ok:
  assumes "\<forall>i \<in> set pages. \<forall>it \<in> set (page_seq ov i).
             w_widthOfTextAtSize w font (o_text it) (o_fontSize it) \<noteq> None"
    and "\<forall>made call. (\<exists>i \<in> set pages. placed call \<in> plan_item w d i ` set (page_seq ov i))
           \<longrightarrow> w_drawText w d font made call"
  shows "\<exists>made'. draw_pages w cv d font ov pages made = Inr made'"
  using assms
proof (induction pages arbitrary: made)
  case Nil
  then show ?case by simp
next
  case (Cons i rest)
  have "\<exists>made1. draw_items w cv d font i (page_seq ov i) made = Inr made1"
    using Cons.prems by (intro draw_items_all_ok) auto
  then obtain made1 where m1: "draw_items w cv d font i (page_seq ov i) made = Inr made1"
    by blast
  have "\<exists>made'. draw_pages w cv d font ov rest made1 = Inr made'"
    using Cons.prems by (intro Cons.IH) auto
  with m1 show ?case by simp
qed



lemma set_planned:
  "set (planned w d ov) =
     (\<Union>i \<in> {0 ..< w_getPageCount w d}. plan_item w d i ` set (page_seq ov i))"
  by (auto simp: planned_def)

text \<open>C1: the export draws the overlays of the loaded document in page order and stored
  order, each with its text and font size at \<open>(x * width, height - y * height - f)\<close> for
  the size of its page. The calls made are always an initial part of that list, and all
  of it when a file was handed to the download; and when the font is embedded, every
  overlay can be measured and \<^verbatim>\<open>drawText\<close> accepts every call that places one of them,
  every overlay of every page is drawn: the calls made are that list. For a page of 595
  by 842 and an overlay at \<open>(0.5, 0.5)\<close> with font size 16 the position is
  \<open>(297.5, 405)\<close>.\<close>

theorem export_draw_positions:
  assumes "s_exportArrayBuffer st = Some buf" and "w_load w buf = Some d"
  shows "(\<exists>rest. planned w d (s_overlays st) = map placed (fst (handleExport w cv st)) @ rest \<and>
            (downloads (snd (handleExport w cv st)) \<noteq> [] \<longrightarrow> rest = [])) \<and>
         (w_embedFont w d = Some font \<and>
          (\<forall>i < w_getPageCount w d. \<forall>it \<in> set (page_seq (s_overlays st) i).
             w_widthOfTextAtSize w font (o_text it) (o_fontSize it) \<noteq> None) \<and>
          (\<forall>made call. placed call \<in> set (planned w d (s_overlays st))
             \<longrightarrow> w_drawText w d font made call)
          \<longrightarrow> map placed (fst (handleExport w cv st)) = planned w d (s_overlays st)) \<and>
         plan_item w d i it =
           (i, o_text it,
            (o_x it * w_getWidth w d i,
             w_getHeight w d i - o_y it * w_getHeight w d i - o_fontSize it),
            o_fontSize it) \<and>
         toPdfPoint (0.5, 0.5) \<lparr>width = 595, height = 842\<rparr> 16 = (297.5, 405)"
proof -
  let ?pages = "[0 ..< w_getPageCount w d]"
  have first: "\<exists>rest. planned w d (s_overlays st) = map placed (fst (handleExport w cv st)) @ rest \<and>
            (downloads (snd (handleExport w cv st)) \<noteq> [] \<longrightarrow> rest = [])"
  proof (cases "w_embedFont w d")
    case None
    with assms show ?thesis
      by (simp add: handleExport_def export_body_def caught_def)
  next
    case (Some font)
    show ?thesis
    proof (cases "draw_pages w cv d font (s_overlays st) ?pages []")
      case (Inl a)
      obtain e made' where a: "a = (e, made')" by (cases a) auto
      from draw_pages_Inl [OF Inl [unfolded a]]
      obtain rest where "planned w d (s_overlays st) = map placed made' @ rest"
        by (auto simp: planned_def)
      with assms Some Inl a show ?thesis
        by (simp add: handleExport_def export_body_def caught_def)
    next
      case (Inr calls)
      from draw_pages_Inr [OF Inr]
      have "planned w d (s_overlays st) = map placed calls"
        by (simp add: planned_def)
      with assms Some Inr show ?thesis
        by (simp add: handleExport_def export_body_def caught_def quiet_def split: option.splits)
    qed
  qed
  have all: "map placed (fst (handleExport w cv st)) = planned w d (s_overlays st)"
    if font: "w_embedFont w d = Some font"
      and measure: "\<forall>i < w_getPageCount w d. \<forall>it \<in> set (page_seq (s_overlays st) i).
             w_widthOfTextAtSize w font (o_text it) (o_fontSize it) \<noteq> None"
      and draw: "\<forall>made call. placed call \<in> set (planned w d (s_overlays st))
             \<longrightarrow> w_drawText w d font made call"
  proof -
    have m: "\<forall>i \<in> set ?pages. \<forall>it \<in> set (page_seq (s_overlays st) i).
             w_widthOfTextAtSize w font (o_text it) (o_fontSize it) \<noteq> None"
      using measure by simp
    have dr: "\<forall>made call.
        (\<exists>i \<in> set ?pages. placed call \<in> plan_item w d i ` set (page_seq (s_overlays st) i))
           \<longrightarrow> w_drawText w d font made call"
      using draw by (simp add: set_planned)
    obtain calls where calls: "draw_pages w cv d font (s_overlays st) ?pages [] = Inr calls"
      using draw_pages_all_ok [OF m dr] by blast
    from draw_pages_Inr [OF calls]
    have "map placed calls = planned w d (s_overlays st)"
      by (simp add: planned_def)
    moreover have "fst (handleExport w cv st) = calls"
      using assms font calls
      by (simp add: handleExport_def export_body_def split: option.splits)
    ultimately show ?thesis by simp
  qed
  have second: "plan_item w d i it =
           (i, o_text it,
            (o_x it * w_getWidth w d i,
             w_getHeight w d i - o_y it * w_getHeight w d i - o_fontSize it),
            o_fontSize it)"
    by (simp add: plan_item_def toPdfPoint_def)
  have third: "toPdfPoint (0.5, 0.5) \<lparr>width = 595, height = 842\<rparr> 16 = (297.5, 405)"
    by (simp add: toPdfPoint_def)
  from first all second third show ?thesis by blast
qed

theorem export_draw_positions_witness:
  "s_exportArrayBuffer sample_editor = Some sample_bytes \<and>
   w_load one_page_writer sample_bytes = Some () \<and>
   w_embedFont one_page_writer () = Some () \<and>
   page_seq (s_overlays sample_editor) 0 = [sample_item] \<and>
   map placed (fst (handleExport one_page_writer sample_canvas sample_editor))
     = [(0, ''New Text'', (297.5, 405), 16)]"
proof -
  have a: "s_exportArrayBuffer sample_editor = Some sample_bytes"
    by (simp add: sample_editor_def)
  have b: "w_load one_page_writer sample_bytes = Some ()"
    by (simp add: one_page_writer_def)
  have f: "w_embedFont one_page_writer () = Some ()"
    by (simp add: one_page_writer_def)
  have ov: "page_seq (s_overlays sample_editor) 0 = [sample_item]"
    by (simp add: sample_editor_def sample_overlays_def page_seq_def)
  have m: "\<forall>i < w_getPageCount one_page_writer ().
      \<forall>it \<in> set (page_seq (s_overlays sample_editor) i).
        w_widthOfTextAtSize one_page_writer () (o_text it) (o_fontSize it) \<noteq> None"
    by (simp add: one_page_writer_def)
  have dr: "\<forall>made call. placed call \<in> set (planned one_page_writer () (s_overlays sample_editor))
      \<longrightarrow> w_drawText one_page_writer () () made call"
    by (simp add: one_page_writer_def)
  have pl: "planned one_page_writer () (s_overlays sample_editor)
      = [(0, ''New Text'', (297.5, 405), 16)]"
    by (simp add: planned_def plan_item_def toPdfPoint_def ov one_page_writer_def
        sample_item_def)
  note inst = export_draw_positions [OF a b, of sample_canvas "()" 0 sample_item,
      THEN conjunct2, THEN conjunct1, rule_format]
  have "map placed (fst (handleExport one_page_writer sample_canvas sample_editor))
      = planned one_page_writer () (s_overlays sample_editor)"
    by (rule inst) (intro conjI f m dr)
  with a b f ov pl show ?thesis by simp
qed



section \<open>Rendering pipeline\<close>

lemma page_sizes_total:
  "list_all (\<lambda>p. p \<noteq> None) doc \<Longrightarrow> \<exists>sizes. page_sizes doc = Some sizes"
proof (induction doc)
  case Nil
  then show ?case by simp
next
  case (Cons p rest)
  then show ?case by (cases p) auto
qed

lemma render_pages_stops:
  assumes "k < length ps"
    and "\<forall>j < length ps. \<exists>pg. ps ! j = Some pg \<and> render_ok pg = (j \<noteq> k)"
    and "\<forall>j < length ps. canvas_at refs (i - 1 + j) = Some (Canvas True)"
    and "1 \<le> i"
  shows "render_pages refs i ps = ([i ..< i + k], False)"
  using assms
proof (induction ps arbitrary: i k)
  case Nil
  then show ?case by simp
next
  case (Cons p rest)
  from Cons.prems(2) [rule_format, of 0] obtain pg where pg: "p = Some pg" "render_ok pg = (0 \<noteq> k)"
    by auto
  from Cons.prems(3) [rule_format, of 0] have cv: "canvas_at refs (i - 1) = Some (Canvas True)"
    by simp
  show ?case
  proof (cases k)
    case 0
    with pg cv show ?thesis by simp
  next
    case (Suc k')
    have 1: "k' < length rest" using Cons.prems(1) Suc by simp
    have 2: "\<forall>j < length rest. \<exists>pg. rest ! j = Some pg \<and> render_ok pg = (j \<noteq> k')"
    proof (intro allI impI)
      fix j assume "j < length rest"
      with Cons.prems(2) [rule_format, of "Suc j"] Suc
      show "\<exists>pg. rest ! j = Some pg \<and> render_ok pg = (j \<noteq> k')" by simp
    qed
    have 3: "\<forall>j < length rest. canvas_at refs (Suc i - 1 + j) = Some (Canvas True)"
    proof (intro allI impI)
      fix j assume "j < length rest"
      with Cons.prems(3) [rule_format, of "Suc j"] Cons.prems(4)
      show "canvas_at refs (Suc i - 1 + j) = Some (Canvas True)" by simp
    qed
    have "render_pages refs (Suc i) rest = ([Suc i ..< Suc i + k'], False)"
      using Cons.IH [OF 1 2 3] by simp
    with pg cv Suc show ?thesis
      by (simp add: upt_conv_Cons)
  qed
qed

text \<open>C5, as the code has it: when every page opens, every canvas is ready, the load is
  not cancelled and the page with index \<open>k\<close> is the only one whose render fails, the
  pipeline paints the pages before it (page numbers \<open>1 .. k\<close>) and no page from it on,
  shows the one alert \<^verbatim>\<open>Failed to render PDF\<close>, and ends with the rendering flag reset
  and the page count of the document in place.\<close>

theorem render_stops_at_failed_page:
  assumes "s_pdfArrayBuffer st = Some data" and "getDocument data = Some doc"
    and "only_render_failure doc k" and "all_canvases_ready refs (length doc)"
  shows "r_painted (loadAndRender getDocument refs None st) = [1 ..< Suc k] \<and>
         r_effects (loadAndRender getDocument refs None st) =
           \<lparr>alerts = [''Failed to render PDF''], console_errors = 1, downloads = []\<rparr> \<and>
         \<not> s_rendering (r_editor (loadAndRender getDocument refs None st)) \<and>
         s_numPages (r_editor (loadAndRender getDocument refs None st)) = length doc"
proof -
  have k: "k < length doc" using assms(3) by (simp add: only_render_failure_def)
  have pages: "\<forall>j < length doc. \<exists>pg. doc ! j = Some pg \<and> render_ok pg = (j \<noteq> k)"
  proof (intro allI impI)
    fix j assume "j < length doc"
    then have "case doc ! j of None \<Rightarrow> False | Some pg \<Rightarrow> render_ok pg = (j \<noteq> k)"
      using assms(3) by (simp add: only_render_failure_def list_all_iff)
    then show "\<exists>pg. doc ! j = Some pg \<and> render_ok pg = (j \<noteq> k)"
      by (cases "doc ! j") auto
  qed
  have refs: "\<forall>j < length doc. canvas_at refs (1 - 1 + j) = Some (Canvas True)"
    using assms(4) by (simp add: all_canvases_ready_def list_all_iff)
  have "list_all (\<lambda>p. p \<noteq> None) doc"
    using pages by (auto simp: list_all_length)
  then obtain sizes where sizes: "page_sizes doc = Some sizes"
    using page_sizes_total by blast
  have loop: "render_pages refs 1 doc = ([1 ..< Suc k], False)"
    using render_pages_stops [OF k pages refs] by simp
  show ?thesis
    using assms(1,2) sizes loop
    by (simp add: loadAndRender_def Let_def cancelled_def finally_rendering_def caught_def)
qed

text \<open>In a document of three pages whose second page fails to render, with all canvases
  ready, page 3 is not painted and the failure alert is shown.\<close>

theorem page_after_failure_not_rendered:
  "3 \<notin> set (r_painted (loadAndRender open_doc3 canvases3 None
            loaded_editor)) \<and>
   alerts (r_effects (loadAndRender open_doc3 canvases3 None
            loaded_editor))
     = [''Failed to render PDF'']"
  by (simp add: loadAndRender_def Let_def cancelled_def finally_rendering_def caught_def
      quiet_def initial_editor_def loaded_editor_def open_doc3_def doc3_def canvases3_def
      canvas_at_def)

theorem render_stops_at_failed_page_witness:
  "s_pdfArrayBuffer loaded_editor
     = Some sample_bytes \<and>
   only_render_failure doc3 1 \<and> all_canvases_ready canvases3 (length doc3) \<and>
   r_painted (loadAndRender open_doc3 canvases3 None
      loaded_editor) = [1]"
proof -
  let ?st = loaded_editor
  have a: "s_pdfArrayBuffer ?st = Some sample_bytes" by (simp add: loaded_editor_def)
  have b: "open_doc3 sample_bytes = Some doc3" by (simp add: open_doc3_def)
  have c: "only_render_failure doc3 1"
    by (simp add: only_render_failure_def doc3_def upt_conv_Cons)
  have d: "all_canvases_ready canvases3 (length doc3)"
    by (simp add: all_canvases_ready_def doc3_def canvases3_def canvas_at_def upt_conv_Cons)
  from render_stops_at_failed_page [of ?st sample_bytes open_doc3 doc3 1 canvases3,
      OF a b c d]
  have "r_painted (loadAndRender open_doc3 canvases3 None ?st) = [1]"
    by (simp add: upt_conv_Cons)
  with a c d show ?thesis by blast
qed

section \<open>Restoring and loading\<close>

text \<open>C7: for a document URL, when building the key, reading the store or parsing the
  record throws, or no record (or an empty one) is stored, the restore effect sets the
  overlay collection to the empty one and changes nothing else, shows no alert, and the
  collection takes a new overlay afterwards.\<close>

theorem restore_failure_is_empty:
  assumes "s_pdfUrl st = Some url" and "url \<noteq> []"
    and "encodeURIComponent env url = None \<or>
         (\<exists>e. encodeURIComponent env url = Some e \<and>
            (getItem env (''overlays:'' @ e) = ReadThrows \<or>
             getItem env (''overlays:'' @ e) = Absent \<or>
             (\<exists>raw. getItem env (''overlays:'' @ e) = Stored raw \<and>
                (raw = [] \<or> JSON_parse env raw = None))))"
  shows "fst (restoreOverlays env st) = st\<lparr>s_overlays := Map.empty\<rparr> \<and>
         alerts (snd (restoreOverlays env st)) = [] \<and>
         downloads (snd (restoreOverlays env st)) = [] \<and>
         page_seq (addTextOverlay ps i uuid (s_overlays (fst (restoreOverlays env st)))) i
           = [newOverlay ps i uuid]"
  using assms
  by (auto simp: restoreOverlays_def read_saved_def getOverlaysStorageKey_def quiet_def
      addTextOverlay_def page_seq_def split: option.splits stored.splits sum.splits)

theorem restore_failure_is_empty_witness:
  "s_pdfUrl sample_editor = Some ''/fake.pdf'' \<and>
   encodeURIComponent broken_store ''/fake.pdf'' = Some ''%2Ffake.pdf'' \<and>
   getItem broken_store (''overlays:'' @ ''%2Ffake.pdf'') = Stored ''{oops'' \<and>
   JSON_parse broken_store ''{oops'' = None \<and>
   s_overlays sample_editor 0 = Some [sample_item] \<and>
   fst (restoreOverlays broken_store sample_editor) = sample_editor\<lparr>s_overlays := Map.empty\<rparr> \<and>
   alerts (snd (restoreOverlays broken_store sample_editor)) = []"
proof -
  have a: "s_pdfUrl sample_editor = Some ''/fake.pdf''" by (simp add: sample_editor_def)
  have b: "''/fake.pdf'' \<noteq> []" by simp
  have e: "encodeURIComponent broken_store ''/fake.pdf'' = Some ''%2Ffake.pdf''"
    and g: "getItem broken_store (''overlays:'' @ ''%2Ffake.pdf'') = Stored ''{oops''"
    and j: "JSON_parse broken_store ''{oops'' = None"
    by (simp_all add: broken_store_def)
  have before: "s_overlays sample_editor 0 = Some [sample_item]"
    by (simp add: sample_editor_def sample_overlays_def)
  have c: "encodeURIComponent broken_store ''/fake.pdf'' = None \<or>
         (\<exists>e. encodeURIComponent broken_store ''/fake.pdf'' = Some e \<and>
            (getItem broken_store (''overlays:'' @ e) = ReadThrows \<or>
             getItem broken_store (''overlays:'' @ e) = Absent \<or>
             (\<exists>raw. getItem broken_store (''overlays:'' @ e) = Stored raw \<and>
                (raw = [] \<or> JSON_parse broken_store raw = None))))"
    using e g j by blast
  from restore_failure_is_empty [OF a b c] a e g j before show ?thesis by blast
qed

text \<open>C10: when the export buffer is empty, as it is before any upload, and the
  document named by the \<^verbatim>\<open>?file=\<close> parameter is fetched, the rendering buffer holds the
  fetched bytes, the export buffer is still empty, and an export does nothing: no
  \<^verbatim>\<open>drawText\<close> call, no alert, no console error, no file.\<close>

theorem param_load_leaves_export_empty:
  assumes "s_exportArrayBuffer st = None" and "url \<noteq> []" and "s_pdfUrl st \<noteq> Some url"
    and "fetch_bytes url = Some ab"
  shows "s_pdfArrayBuffer (fst (loadFromParam fetch_bytes (Some url) st)) = Some ab \<and>
         s_exportArrayBuffer (fst (loadFromParam fetch_bytes (Some url) st)) = None \<and>
         handleExport w cv (fst (loadFromParam fetch_bytes (Some url) st)) =
           ([], \<lparr>alerts = [], console_errors = 0, downloads = []\<rparr>)"
  using assms by (auto simp: loadFromParam_def handleExport_def Let_def quiet_def)

theorem param_load_leaves_export_empty_witness:
  "s_exportArrayBuffer initial_editor = None \<and> s_pdfUrl initial_editor \<noteq> Some ''/fake.pdf'' \<and>
   s_pdfArrayBuffer (fst (loadFromParam fetch_sample (Some ''/fake.pdf'')
      initial_editor)) = Some sample_bytes \<and>
   handleExport one_page_writer sample_canvas
     (fst (loadFromParam fetch_sample (Some ''/fake.pdf'') initial_editor)) =
     ([], \<lparr>alerts = [], console_errors = 0, downloads = []\<rparr>)"
proof -
  have a: "s_exportArrayBuffer initial_editor = None" by (simp add: initial_editor_def)
  have b: "''/fake.pdf'' \<noteq> []" by simp
  have c: "s_pdfUrl initial_editor \<noteq> Some ''/fake.pdf''" by (simp add: initial_editor_def)
  have d: "fetch_sample ''/fake.pdf'' = Some sample_bytes" by (simp add: fetch_sample_def)
  from param_load_leaves_export_empty [where st = initial_editor and url = "''/fake.pdf''"
      and fetch_bytes = fetch_sample and ab = sample_bytes and w = one_page_writer
      and cv = sample_canvas, OF a b c d] a c
  show ?thesis by blast
qed

end
